theory Spec2Isabelle
  imports Main "HOL-Library.Char_ord" "HOL-Library.List_Lexorder"
begin

section \<open>Behavior model generator (scripts/generate-behavior-model.py)\<close>

text \<open>
  The script reads a primary Smithy document and a list of overlay documents, scans them
  with regular expressions and assembles one behavior model. The embedding follows the
  script function by function; reading and writing files (\<open>parse_smithy_file\<close>, \<open>main\<close>)
  stay outside: a document is the \<open>string\<close> read from its file.

  Documents are taken to be ASCII text: the classes \<open>\w\<close>, \<open>\s\<close>, \<open>\d\<close> and
  \<open>str.isdigit\<close> are Python's on the code points below 128, and every other character
  is in none of them. On such text \<open>int(value)\<close> is the decimal value of a non-empty digit
  string (the interpreter's limit on the length of a numeral is not modelled).
\<close>

subsection \<open>Regular expressions with Python's backtracking order\<close>

text \<open>
  \<open>ms r s c\<close> lists, in the order in which a backtracking matcher tries them, every way
  for \<open>r\<close> to match a prefix of \<open>s\<close>: the text left over and the capture groups set
  so far (the newest capture first). The head of the list is the match Python's \<open>re\<close>
  reports at that start position. \<open>Star\<close> is the greedy star, \<open>LazyStar\<close> is \<open>*?\<close>.
  Their guard \<open>length s' < length s\<close> stops an iteration that takes no character; the body
  of every star in the script's patterns takes at least one (\<open>ms_length\<close> below), so the
  guard never applies there.
\<close>

datatype rx = Lit char | Cls "char \<Rightarrow> bool" | Eps | Seq rx rx | Alt rx rx
  | Star rx | LazyStar rx | Grp nat rx

type_synonym rmatch = "(nat \<times> string) list"

fun ms :: "rx \<Rightarrow> string \<Rightarrow> rmatch \<Rightarrow> (string \<times> rmatch) list" where
  "ms (Lit a) s c = (case s of [] \<Rightarrow> [] | x # xs \<Rightarrow> if x = a then [(xs, c)] else [])"
| "ms (Cls P) s c = (case s of [] \<Rightarrow> [] | x # xs \<Rightarrow> if P x then [(xs, c)] else [])"
| "ms Eps s c = [(s, c)]"
| "ms (Seq a b) s c = concat (map (\<lambda>(s', c'). ms b s' c') (ms a s c))"
| "ms (Alt a b) s c = ms a s c @ ms b s c"
| "ms (Star a) s c =
     concat (map (\<lambda>(s', c'). if length s' < length s then ms (Star a) s' c' else [])
                 (ms a s c))
     @ [(s, c)]"
| "ms (LazyStar a) s c =
     (s, c) #
     concat (map (\<lambda>(s', c'). if length s' < length s then ms (LazyStar a) s' c' else [])
                 (ms a s c))"
| "ms (Grp i a) s c =
     map (\<lambda>(s', c'). (s', (i, take (length s - length s') s) # c')) (ms a s c)"

declare ms.simps(6) [simp del] ms.simps(7) [simp del]

text \<open>
  \<open>pattern.finditer(s)\<close>: the leftmost match, then the search goes on where the match
  ended. (After an empty match the model moves one character on; none of the script's
  patterns can match the empty string, see \<open>finditer_consumes\<close> and \<open>pattern_consumes\<close>
  below.)
\<close>

function finditer :: "rx \<Rightarrow> string \<Rightarrow> rmatch list" where
  "finditer r s =
     (case ms r s [] of
        [] \<Rightarrow> (case s of [] \<Rightarrow> [] | _ # t \<Rightarrow> finditer r t)
      | (rest, c) # _ \<Rightarrow>
          (if length rest < length s then c # finditer r rest
           else c # (case s of [] \<Rightarrow> [] | _ # t \<Rightarrow> finditer r t)))"
  by pat_completeness auto
termination
  by (relation "measure (\<lambda>(r, s). length s)") auto

declare finditer.simps [simp del]

text \<open>\<open>match.group(i)\<close>: \<open>None\<close> when group \<open>i\<close> took no part in the match.\<close>

definition group :: "rmatch \<Rightarrow> nat \<Rightarrow> string option" where
  "group m i = map_of m i"

text \<open>
  \<open>group_str\<close> reads a group that takes part in every match of its pattern
  (\<open>finditer_sets\<close> and \<open>pattern_groups\<close> below show that each use is of this kind).
\<close>

definition group_str :: "rmatch \<Rightarrow> nat \<Rightarrow> string" where
  "group_str m i = (case group m i of Some w \<Rightarrow> w | None \<Rightarrow> [])"

definition Plus :: "rx \<Rightarrow> rx" where
  "Plus r = Seq r (Star r)"

definition Opt :: "rx \<Rightarrow> rx" where
  "Opt r = Alt r Eps"

fun lit :: "string \<Rightarrow> rx" where
  "lit [] = Eps"
| "lit [a] = Lit a"
| "lit (a # b # bs) = Seq (Lit a) (lit (b # bs))"

definition is_digit :: "char \<Rightarrow> bool" where
  "is_digit ch = (let n = (of_char ch :: nat) in 48 \<le> n \<and> n \<le> 57)"

definition is_alpha :: "char \<Rightarrow> bool" where
  "is_alpha ch =
     (let n = (of_char ch :: nat) in (65 \<le> n \<and> n \<le> 90) \<or> (97 \<le> n \<and> n \<le> 122))"

definition is_word :: "char \<Rightarrow> bool" where
  "is_word ch = (is_alpha ch \<or> is_digit ch \<or> ch = CHR ''_'')"

definition is_space :: "char \<Rightarrow> bool" where
  "is_space ch =
     (let n = (of_char ch :: nat) in (9 \<le> n \<and> n \<le> 13) \<or> (28 \<le> n \<and> n \<le> 32))"

abbreviation word :: rx where "word \<equiv> Cls is_word"
abbreviation space :: rx where "space \<equiv> Cls is_space"
abbreviation anychar :: rx where "anychar \<equiv> Cls (\<lambda>ch. True)"
abbreviation newline :: char where "newline \<equiv> CHR 0x0A"
abbreviation dquote :: char where "dquote \<equiv> CHR 0x22"

subsection \<open>The script's patterns\<close>

text \<open>\<^verbatim>\<open>((?:@[a-zA-Z]+(?:\([^)]*\))?\s*\n)*)operation\s+(\w+)\s*\{\<close>\<close>

definition operation_pattern :: rx where
  "operation_pattern =
     Seq (Grp 1 (Star
            (Seq (Lit CHR ''@'')
            (Seq (Plus (Cls is_alpha))
            (Seq (Opt (Seq (Lit CHR ''('')
                      (Seq (Star (Cls (\<lambda>ch. ch \<noteq> CHR '')'')))
                           (Lit CHR '')''))))
            (Seq (Star space)
                 (Lit newline)))))))
    (Seq (lit ''operation'')
    (Seq (Plus space)
    (Seq (Grp 2 (Plus word))
    (Seq (Star space)
         (Lit CHR ''{'')))))"

text \<open>\<^verbatim>\<open>apply\s+(\w+)\s+@(\w+)\(\{([^}]+)\}\)\<close>\<close>

definition apply_pattern :: rx where
  "apply_pattern =
     Seq (lit ''apply'')
    (Seq (Plus space)
    (Seq (Grp 1 (Plus word))
    (Seq (Plus space)
    (Seq (Lit CHR ''@'')
    (Seq (Grp 2 (Plus word))
    (Seq (lit ''({'')
    (Seq (Grp 3 (Plus (Cls (\<lambda>ch. ch \<noteq> CHR ''}''))))
         (lit ''})''))))))))"

text \<open>\<^verbatim>\<open>(\w+):\s*(?:"([^"]+)"|(\d+)|(\w+))\<close>\<close>

definition kv_pattern :: rx where
  "kv_pattern =
     Seq (Grp 1 (Plus word))
    (Seq (Lit CHR '':'')
    (Seq (Star space)
         (Alt (Seq (Lit dquote)
              (Seq (Grp 2 (Plus (Cls (\<lambda>ch. ch \<noteq> dquote))))
                   (Lit dquote)))
         (Alt (Grp 3 (Plus (Cls is_digit)))
              (Grp 4 (Plus word))))))"

text \<open>\<^verbatim>\<open>@sensitive\s*\n\s*(?:string|integer|long|blob|timestamp)\s+(\w+)\<close>\<close>

definition sensitive_pattern :: rx where
  "sensitive_pattern =
     Seq (lit ''@sensitive'')
    (Seq (Star space)
    (Seq (Lit newline)
    (Seq (Star space)
    (Seq (Alt (lit ''string'') (Alt (lit ''integer'') (Alt (lit ''long'')
           (Alt (lit ''blob'') (lit ''timestamp'')))))
    (Seq (Plus space)
         (Grp 1 (Plus word)))))))"

text \<open>\<^verbatim>\<open>structure\s+(\w+)\s*\{([^}]+)\}\<close>\<close>

definition struct_pattern :: rx where
  "struct_pattern =
     Seq (lit ''structure'')
    (Seq (Plus space)
    (Seq (Grp 1 (Plus word))
    (Seq (Star space)
    (Seq (Lit CHR ''{'')
    (Seq (Grp 2 (Plus (Cls (\<lambda>ch. ch \<noteq> CHR ''}''))))
         (Lit CHR ''}''))))))"

text \<open>\<^verbatim>\<open>(\w+):\s*(\w+)\<close>\<close>

definition member_pattern :: rx where
  "member_pattern =
     Seq (Grp 1 (Plus word))
    (Seq (Lit CHR '':'')
    (Seq (Star space)
         (Grp 2 (Plus word))))"

text \<open>
  \<^verbatim>\<open>\*\*Pagination\*\*:\s*Uses\s+Link\s+header.*?\n.*?operation\s+(\w+)\s*\{\<close>
  compiled with \<open>re.DOTALL\<close>, so that the dot matches every character.
\<close>

definition doc_pattern :: rx where
  "doc_pattern =
     Seq (lit ''**Pagination**:'')
    (Seq (Star space)
    (Seq (lit ''Uses'')
    (Seq (Plus space)
    (Seq (lit ''Link'')
    (Seq (Plus space)
    (Seq (lit ''header'')
    (Seq (LazyStar anychar)
    (Seq (Lit newline)
    (Seq (LazyStar anychar)
    (Seq (lit ''operation'')
    (Seq (Plus space)
    (Seq (Grp 1 (Plus word))
    (Seq (Star space)
         (Lit CHR ''{''))))))))))))))"

subsection \<open>Dictionaries and values\<close>

text \<open>
  A Python \<open>dict\<close> keeps its keys in insertion order: an association list with
  distinct keys. \<open>dict_set\<close> is \<open>d[k] = v\<close>; \<open>dict_modify k f\<close> is an update
  inside the value stored at \<open>k\<close>, as in \<open>d[k][j] = v\<close> (the script only does this
  for a key it has just made sure is there); \<open>dict_ensure\<close> is
  \<open>if k not in d: d[k] = {}\<close>.
\<close>

fun dict_set :: "'k \<Rightarrow> 'v \<Rightarrow> ('k \<times> 'v) list \<Rightarrow> ('k \<times> 'v) list" where
  "dict_set k v [] = [(k, v)]"
| "dict_set k v ((k', v') # d) =
     (if k' = k then (k, v) # d else (k', v') # dict_set k v d)"

fun dict_modify :: "'k \<Rightarrow> ('v \<Rightarrow> 'v) \<Rightarrow> ('k \<times> 'v) list \<Rightarrow> ('k \<times> 'v) list" where
  "dict_modify k f [] = []"
| "dict_modify k f ((k', v') # d) =
     (if k' = k then (k', f v') # d else (k', v') # dict_modify k f d)"

definition dict_ensure :: "'k \<Rightarrow> 'v \<Rightarrow> ('k \<times> 'v) list \<Rightarrow> ('k \<times> 'v) list" where
  "dict_ensure k e d = (if map_of d k = None then dict_set k e d else d)"

text \<open>
  The values of a trait payload: a string, an integer or a boolean. \<open>VNull\<close> is Python's
  \<open>None\<close>, the value the conversion would store if no group had matched; \<open>kv_value_forms\<close>
  below shows that no match of the script's pattern produces it.
\<close>

datatype jvalue = VStr string | VInt int | VBool bool | VNull

type_synonym payload = "(string \<times> jvalue) list"

text \<open>
  The record an operation accumulates (the script's \<open>operations[op_name]\<close>, a dict that
  only ever gets these five keys); \<open>None\<close> is an absent key.
\<close>

record op_traits =
  readonly :: "bool option"
  idempotent :: "bool option"
  pagination :: "payload option"
  retry :: "payload option"
  idempotency :: "payload option"

definition no_traits :: op_traits where
  "no_traits = \<lparr>readonly = None, idempotent = None, pagination = None, retry = None,
                 idempotency = None\<rparr>"

text \<open>An entry of the output (\<open>op_entry\<close>), keys in the order the script sets them.\<close>

record op_entry =
  out_readonly :: "bool option"
  out_idempotent :: "jvalue option"
  out_pagination :: "payload option"
  out_retry :: "payload option"

text \<open>The model the script returns; \<open>schema\<close> is its key \<open>$schema\<close>.\<close>

record behavior_model =
  schema :: string
  version :: string
  generated :: bool
  operations :: "(string \<times> op_entry) list"
  redaction :: "(string \<times> string list) list"
  sensitiveTypes :: "string list"

subsection \<open>extract_operations_with_traits\<close>

text \<open>\<open>sub in s\<close> on strings.\<close>

fun str_in :: "string \<Rightarrow> string \<Rightarrow> bool" where
  "str_in sub [] = (sub = [])"
| "str_in sub (x # xs) = (take (length sub) (x # xs) = sub \<or> str_in sub xs)"

definition op_info :: "string \<Rightarrow> op_traits" where
  "op_info traits_block =
     (let op_info = no_traits;
          op_info = (if str_in ''@readonly'' traits_block
                     then op_info\<lparr>readonly := Some True\<rparr> else op_info);
          op_info = (if str_in ''@idempotent'' traits_block
                     then op_info\<lparr>idempotent := Some True\<rparr> else op_info)
      in op_info)"

definition extract_operations_with_traits :: "string \<Rightarrow> (string \<times> op_traits) list" where
  "extract_operations_with_traits content =
     foldl (\<lambda>ops m. dict_set (group_str m 2) (op_info (group_str m 1)) ops)
           [] (finditer operation_pattern content)"

subsection \<open>extract_overlay_traits\<close>

text \<open>\<open>a or b\<close> on values that are a string or \<open>None\<close>.\<close>

fun py_or :: "string option \<Rightarrow> string option \<Rightarrow> string option" where
  "py_or (Some (x # xs)) b = Some (x # xs)"
| "py_or a b = b"

definition str_isdigit :: "string \<Rightarrow> bool" where
  "str_isdigit v = (v \<noteq> [] \<and> list_all is_digit v)"

definition py_int :: "string \<Rightarrow> int" where
  "py_int v = foldl (\<lambda>n ch. 10 * n + (int (of_char ch) - 48)) 0 v"

definition convert_value :: "string option \<Rightarrow> jvalue" where
  "convert_value val =
     (case val of
        None \<Rightarrow> VNull
      | Some v \<Rightarrow>
          if v \<noteq> [] \<and> str_isdigit v then VInt (py_int v)
          else if v = ''true'' then VBool True
          else if v = ''false'' then VBool False
          else VStr v)"

definition kv_value :: "rmatch \<Rightarrow> jvalue" where
  "kv_value kv_match =
     convert_value (py_or (py_or (group kv_match 2) (group kv_match 3)) (group kv_match 4))"

definition parse_trait_body :: "string \<Rightarrow> payload" where
  "parse_trait_body trait_body =
     foldl (\<lambda>trait_values kv_match.
              dict_set (group_str kv_match 1) (kv_value kv_match) trait_values)
           [] (finditer kv_pattern trait_body)"

definition overlay_step ::
  "(string \<times> (string \<times> payload) list) list \<Rightarrow> rmatch \<Rightarrow>
   (string \<times> (string \<times> payload) list) list" where
  "overlay_step traits m =
     (let op_name = group_str m 1;
          trait_name = group_str m 2;
          trait_body = group_str m 3;
          traits = dict_ensure op_name [] traits;
          trait_values = parse_trait_body trait_body
      in dict_modify op_name (dict_set trait_name trait_values) traits)"

definition extract_overlay_traits :: "string \<Rightarrow> (string \<times> (string \<times> payload) list) list" where
  "extract_overlay_traits content = foldl overlay_step [] (finditer apply_pattern content)"

subsection \<open>extract_sensitive_types, extract_structures_with_sensitive_fields\<close>

definition extract_sensitive_types :: "string \<Rightarrow> string set" where
  "extract_sensitive_types content =
     foldl (\<lambda>sensitive_types m. insert (group_str m 1) sensitive_types)
           {} (finditer sensitive_pattern content)"

definition sensitive_fields :: "string set \<Rightarrow> string \<Rightarrow> string list" where
  "sensitive_fields sensitive_types struct_body =
     foldl (\<lambda>fields member_match.
              if group_str member_match 2 \<in> sensitive_types
              then fields @ [''$.'' @ group_str member_match 1] else fields)
           [] (finditer member_pattern struct_body)"

definition extract_structures_with_sensitive_fields ::
  "string \<Rightarrow> string set \<Rightarrow> (string \<times> string list) list" where
  "extract_structures_with_sensitive_fields content sensitive_types =
     foldl (\<lambda>redaction_rules struct_match.
              let struct_name = group_str struct_match 1;
                  struct_body = group_str struct_match 2;
                  fields = sensitive_fields sensitive_types struct_body
              in if fields \<noteq> [] then dict_set struct_name fields redaction_rules
                 else redaction_rules)
           [] (finditer struct_pattern content)"

subsection \<open>detect_pagination_from_docs\<close>

definition link_pagination :: payload where
  "link_pagination = [(''style'', VStr ''link'')]"

definition detect_pagination_from_docs :: "string \<Rightarrow> (string \<times> payload) list" where
  "detect_pagination_from_docs content =
     foldl (\<lambda>pagination_ops m. dict_set (group_str m 1) link_pagination pagination_ops)
           [] (finditer doc_pattern content)"

subsection \<open>build_behavior_model\<close>

text \<open>The three \<open>if ... in traits\<close> statements that copy an overlay's traits.\<close>

definition merge_traits :: "(string \<times> payload) list \<Rightarrow> op_traits \<Rightarrow> op_traits" where
  "merge_traits traits t =
     (let t = (case map_of traits ''pagination'' of
                 Some p \<Rightarrow> t\<lparr>pagination := Some p\<rparr> | None \<Rightarrow> t);
          t = (case map_of traits ''retry'' of
                 Some p \<Rightarrow> t\<lparr>retry := Some p\<rparr> | None \<Rightarrow> t);
          t = (case map_of traits ''idempotency'' of
                 Some p \<Rightarrow> t\<lparr>idempotency := Some p\<rparr> | None \<Rightarrow> t)
      in t)"

definition merge_op ::
  "(string \<times> op_traits) list \<Rightarrow> string \<times> (string \<times> payload) list \<Rightarrow>
   (string \<times> op_traits) list" where
  "merge_op ops item =
     (case item of (op_name, traits) \<Rightarrow>
        dict_modify op_name (merge_traits traits) (dict_ensure op_name no_traits ops))"

definition merge_overlay ::
  "(string \<times> op_traits) list \<Rightarrow> (string \<times> (string \<times> payload) list) list \<Rightarrow>
   (string \<times> op_traits) list" where
  "merge_overlay ops overlay_traits = foldl merge_op ops overlay_traits"

text \<open>
  The overlay files are the \<open>(name, content)\<close> pairs of \<open>overlays_dir.glob('*.smithy')\<close>
  in the order the directory listing gives them (no pair when the directory is missing).
\<close>

definition skipped :: "string \<Rightarrow> bool" where
  "skipped name = (name = ''examples.smithy'' \<or> name = ''tags.smithy'')"

definition read_overlays ::
  "(string \<times> op_traits) list \<Rightarrow> (string \<times> string) list \<Rightarrow> (string \<times> op_traits) list" where
  "read_overlays ops overlay_files =
     foldl (\<lambda>ops overlay_file.
              case overlay_file of (name, overlay_content) \<Rightarrow>
                if skipped name then ops
                else merge_overlay ops (extract_overlay_traits overlay_content))
           ops overlay_files"

definition apply_doc_pagination ::
  "(string \<times> op_traits) list \<Rightarrow> (string \<times> payload) list \<Rightarrow> (string \<times> op_traits) list" where
  "apply_doc_pagination ops doc_pagination =
     foldl (\<lambda>ops item.
              case item of (op_name, pagination_info) \<Rightarrow>
                (case map_of ops op_name of
                   None \<Rightarrow> ops
                 | Some t \<Rightarrow>
                     if pagination t = None
                     then dict_modify op_name (\<lambda>t. t\<lparr>pagination := Some pagination_info\<rparr>) ops
                     else ops))
           ops doc_pagination"

definition default_retry_readonly :: payload where
  "default_retry_readonly =
     [(''max'', VInt 3), (''base_delay_seconds'', VInt 1), (''backoff'', VStr ''exp+jitter'')]"

definition default_retry_other :: payload where
  "default_retry_other = [(''max'', VInt 0)]"

definition final_entry :: "op_traits \<Rightarrow> op_entry" where
  "final_entry op_traits =
     \<lparr>out_readonly = (if readonly op_traits = Some True then Some True else None),
      out_idempotent =
        (if idempotent op_traits = Some True then Some (VBool True)
         else case idempotency op_traits of
                Some p \<Rightarrow> Some (case map_of p ''supported'' of
                                   Some v \<Rightarrow> v | None \<Rightarrow> VBool False)
              | None \<Rightarrow> None),
      out_pagination = pagination op_traits,
      out_retry =
        (case retry op_traits of
           Some r \<Rightarrow> Some r
         | None \<Rightarrow> if readonly op_traits = Some True then Some default_retry_readonly
                   else Some default_retry_other)\<rparr>"

definition merged_operations :: "string \<Rightarrow> (string \<times> string) list \<Rightarrow> (string \<times> op_traits) list" where
  "merged_operations main_spec overlay_files =
     apply_doc_pagination
       (read_overlays (extract_operations_with_traits main_spec) overlay_files)
       (detect_pagination_from_docs main_spec)"

definition build_behavior_model :: "string \<Rightarrow> (string \<times> string) list \<Rightarrow> behavior_model" where
  "build_behavior_model main_spec overlay_files =
     (let sensitive_types = extract_sensitive_types main_spec;
          redaction_rules = extract_structures_with_sensitive_fields main_spec sensitive_types;
          ops = merged_operations main_spec overlay_files
      in \<lparr>schema = ''https://basecamp.com/schemas/behavior-model.json'',
          version = ''1.0.0'',
          generated = True,
          operations =
            foldl (\<lambda>out item. case item of (op_name, op_traits) \<Rightarrow>
                     dict_set op_name (final_entry op_traits) out)
                  [] (sort_key fst ops),
          redaction = redaction_rules,
          sensitiveTypes = sorted_list_of_set sensitive_types\<rparr>)"

subsection \<open>Notions used to state the properties\<close>

text \<open>
  The overlay documents the assembler processes (the files it does not skip), scanned,
  in processing order.
\<close>

definition overlay_docs :: "(string \<times> string) list \<Rightarrow> (string \<times> (string \<times> payload) list) list list" where
  "overlay_docs overlay_files =
     map (\<lambda>(name, overlay_content). extract_overlay_traits overlay_content)
         (filter (\<lambda>(name, overlay_content). \<not> skipped name) overlay_files)"

text \<open>
  \<open>supplied trait_name op_name overlay_files\<close>: the payloads that the processed overlay
  documents give for the structured trait \<open>trait_name\<close> of \<open>op_name\<close>, in processing
  order, one for each document that gives the trait (within one document the last
  \<open>apply\<close> statement for the pair counts). \<open>targeted\<close>: some processed overlay document
  has an \<open>apply\<close> statement for the operation.
\<close>

definition supplied_in ::
  "string \<Rightarrow> string \<Rightarrow> (string \<times> (string \<times> payload) list) list list \<Rightarrow> payload list" where
  "supplied_in trait_name op_name docs =
     List.map_filter
       (\<lambda>ov. case map_of ov op_name of None \<Rightarrow> None | Some traits \<Rightarrow> map_of traits trait_name)
       docs"

definition supplied :: "string \<Rightarrow> string \<Rightarrow> (string \<times> string) list \<Rightarrow> payload list" where
  "supplied trait_name op_name overlay_files =
     supplied_in trait_name op_name (overlay_docs overlay_files)"

definition targeted :: "string \<Rightarrow> (string \<times> string) list \<Rightarrow> bool" where
  "targeted op_name overlay_files =
     list_ex (\<lambda>ov. map_of ov op_name \<noteq> None) (overlay_docs overlay_files)"

text \<open>
  The record of one operation: \<open>or_empty\<close> is the record the merge starts from (the
  Trait Scanner's entry, or the empty record), \<open>acc_traits\<close> the record after the
  overlay documents have been merged into it, \<open>with_doc_pagination\<close> the effect of the
  prose fallback on it. \<open>last_or d ps\<close> is the last element of \<open>ps\<close>, and \<open>d\<close> when
  there is none; \<open>supported_of\<close> is \<open>payload.get('supported', False)\<close>.
\<close>

definition or_empty :: "op_traits option \<Rightarrow> op_traits" where
  "or_empty x = (case x of None \<Rightarrow> no_traits | Some t \<Rightarrow> t)"

definition acc_traits ::
  "string \<Rightarrow> op_traits \<Rightarrow> (string \<times> (string \<times> payload) list) list list \<Rightarrow> op_traits" where
  "acc_traits op_name t docs =
     foldl (\<lambda>t ov. case map_of ov op_name of None \<Rightarrow> t | Some traits \<Rightarrow> merge_traits traits t)
           t docs"

definition with_doc_pagination :: "(string \<times> payload) list \<Rightarrow> string \<Rightarrow> op_traits \<Rightarrow> op_traits" where
  "with_doc_pagination doc_pagination op_name t =
     (case pagination t of
        Some p \<Rightarrow> t
      | None \<Rightarrow> (case map_of doc_pagination op_name of
                   None \<Rightarrow> t
                 | Some info \<Rightarrow> t\<lparr>pagination := Some info\<rparr>))"

definition last_or :: "'a option \<Rightarrow> 'a list \<Rightarrow> 'a option" where
  "last_or d ps = (if ps = [] then d else Some (last ps))"

definition supported_of :: "payload \<Rightarrow> jvalue" where
  "supported_of p = (case map_of p ''supported'' of Some v \<Rightarrow> v | None \<Rightarrow> VBool False)"

text \<open>
  \<open>headers_named op_name content\<close>: the operation headers that the Trait Scanner
  matches for \<open>op_name\<close>, in document order. \<open>scanned_flag\<close>: a flag of the scanner's
  entry is set.
  \<open>declared_with marker main_spec op_name\<close>: the primary document declares \<open>op_name\<close>, and
  the annotation block captured with its declaration (the last one, should the name be
  declared more than once) contains the marker.
\<close>

definition headers_named :: "string \<Rightarrow> string \<Rightarrow> rmatch list" where
  "headers_named op_name content =
     filter (\<lambda>m. group_str m 2 = op_name) (finditer operation_pattern content)"

definition scanned_flag :: "(op_traits \<Rightarrow> bool option) \<Rightarrow> string \<Rightarrow> string \<Rightarrow> bool" where
  "scanned_flag field main_spec op_name =
     (case map_of (extract_operations_with_traits main_spec) op_name of
        None \<Rightarrow> False | Some t \<Rightarrow> field t = Some True)"

definition declared_with :: "string \<Rightarrow> string \<Rightarrow> string \<Rightarrow> bool" where
  "declared_with marker main_spec op_name =
     (case headers_named op_name main_spec of
        [] \<Rightarrow> False
      | m # rest \<Rightarrow> str_in marker (group_str (last (m # rest)) 1))"

text \<open>
  \<open>structs_named\<close>: the structure declarations matched for a name.
  \<open>qualifying_members\<close>: the members matched in a structure body whose type is in the
  sensitive-type set, in declaration order.
\<close>

definition structs_named :: "string \<Rightarrow> string \<Rightarrow> rmatch list" where
  "structs_named struct_name content =
     filter (\<lambda>st. group_str st 1 = struct_name) (finditer struct_pattern content)"

definition qualifying_members :: "string set \<Rightarrow> string \<Rightarrow> rmatch list" where
  "qualifying_members sensitive_types struct_body =
     filter (\<lambda>member_match. group_str member_match 2 \<in> sensitive_types)
            (finditer member_pattern struct_body)"

text \<open>
  For the matcher: \<open>sets i r\<close> says that every match of \<open>r\<close> sets group \<open>i\<close>;
  \<open>consumes r\<close> says that every match of \<open>r\<close> takes at least one character.
  \<open>kv_alternatives\<close> names the three value forms of \<open>kv_pattern\<close>.
\<close>

fun sets :: "nat \<Rightarrow> rx \<Rightarrow> bool" where
  "sets i (Grp j a) = (i = j \<or> sets i a)"
| "sets i (Seq a b) = (sets i a \<or> sets i b)"
| "sets i (Alt a b) = (sets i a \<and> sets i b)"
| "sets i r = False"

fun consumes :: "rx \<Rightarrow> bool" where
  "consumes (Lit a) = True"
| "consumes (Cls P) = True"
| "consumes (Seq a b) = (consumes a \<or> consumes b)"
| "consumes (Alt a b) = (consumes a \<and> consumes b)"
| "consumes (Grp i a) = consumes a"
| "consumes r = False"


section \<open>Properties\<close>

subsection \<open>Dictionaries\<close>

lemma map_of_dict_set: "map_of (dict_set k v d) = (map_of d)(k \<mapsto> v)"
  by (induction d) (auto simp: fun_eq_iff)

lemma keys_dict_set: "map fst (dict_set k v d) = (if k \<in> set (map fst d) then map fst d else map fst d @ [k])"
  by (induction d) force+

lemma distinct_dict_set: "distinct (map fst d) \<Longrightarrow> distinct (map fst (dict_set k v d))"
  by (simp add: keys_dict_set)

lemma keys_dict_modify: "map fst (dict_modify k f d) = map fst d"
  by (induction d) auto

lemma map_of_dict_modify:
  "map_of (dict_modify k f d) = (case map_of d k of None \<Rightarrow> map_of d | Some v \<Rightarrow> (map_of d)(k \<mapsto> f v))"
  by (induction d) (auto simp: fun_eq_iff split: option.splits)

lemma map_of_dict_ensure:
  "map_of (dict_ensure k e d) = (case map_of d k of None \<Rightarrow> (map_of d)(k \<mapsto> e) | Some v \<Rightarrow> map_of d)"
  by (auto simp: dict_ensure_def map_of_dict_set split: option.splits)

lemma distinct_dict_ensure: "distinct (map fst d) \<Longrightarrow> distinct (map fst (dict_ensure k e d))"
  by (simp add: dict_ensure_def distinct_dict_set)

lemma distinct_foldl_dict_set:
  "distinct (map fst d) \<Longrightarrow> distinct (map fst (foldl (\<lambda>acc x. dict_set (kf x) (vf x) acc) d xs))"
  by (induction xs arbitrary: d) (auto simp: distinct_dict_set)

lemma map_of_foldl_dict_set:
  "map_of (foldl (\<lambda>acc x. dict_set (kf x) (vf x) acc) d xs) k =
     (case filter (\<lambda>x. kf x = k) xs of [] \<Rightarrow> map_of d k | y # ys \<Rightarrow> Some (vf (last (y # ys))))"
proof (induction xs rule: rev_induct)
  case Nil
  then show ?case by simp
next
  case (snoc x xs)
  then show ?case
    by (cases "filter (\<lambda>x. kf x = k) xs") (auto simp: map_of_dict_set)
qed

lemma foldl_dict_set_fresh:
  "distinct (map fst acc @ map fst xs) \<Longrightarrow>
   foldl (\<lambda>out item. case item of (k, t) \<Rightarrow> dict_set k (g t) out) acc xs =
     acc @ map (\<lambda>(k, t). (k, g t)) xs"
proof (induction xs arbitrary: acc)
  case Nil
  then show ?case by simp
next
  case (Cons a xs)
  obtain k t where a: "a = (k, t)" by (cases a)
  have fresh: "k \<notin> set (map fst acc)" using Cons.prems a by auto
  have set_fresh: "dict_set k v acc = acc @ [(k, v)]" for v
    using fresh by (induction acc) auto
  have "distinct (map fst (acc @ [(k, g t)]) @ map fst xs)"
    using Cons.prems a by auto
  from Cons.IH[OF this] show ?case
    by (simp add: a set_fresh)
qed

lemma foldl_dict_set_if:
  "foldl (\<lambda>acc x. if P x then dict_set (kf x) (vf x) acc else acc) d xs =
   foldl (\<lambda>acc x. dict_set (kf x) (vf x) acc) d (filter P xs)"
  by (induction xs arbitrary: d) auto




lemma distinct_keys_sort_key: "distinct (map fst (sort_key fst xs)) = distinct (map fst xs)"
  by (simp add: distinct_map)

lemma map_of_sort_key: "distinct (map fst xs) \<Longrightarrow> map_of (sort_key fst xs) = map_of xs"
  by (simp add: map_of_inject_set distinct_keys_sort_key)

lemma sorted_assoc_unique:
  assumes "sorted (map fst xs)" "distinct (map fst xs)" "sorted (map fst ys)" "distinct (map fst ys)"
    "map_of xs = map_of ys"
  shows "xs = ys"
proof -
  from assms(2,4,5) have s: "set xs = set ys" by (simp add: map_of_inject_set)
  from assms(2) have "inj_on fst (set xs)" by (simp add: distinct_map)
  with s have "inj_on fst (set xs \<union> set ys)" by simp
  from map_sorted_distinct_set_unique[OF this assms(1,2,3,4) s] show ?thesis .
qed

lemma foldl_insert_image: "foldl (\<lambda>S m. insert (f m) S) S0 xs = S0 \<union> f ` set xs"
  by (induction xs arbitrary: S0) auto

lemma foldl_append_if:
  "foldl (\<lambda>acc x. if P x then acc @ [f x] else acc) acc0 xs = acc0 @ map f (filter P xs)"
  by (induction xs arbitrary: acc0) auto

subsection \<open>The matcher\<close>

lemma in_ms_Seq:
  "(s', c') \<in> set (ms (Seq a b) s c) \<longleftrightarrow>
     (\<exists>t d. (t, d) \<in> set (ms a s c) \<and> (s', c') \<in> set (ms b t d))"
  by auto

lemma in_ms_Star:
  "(s', c') \<in> set (ms (Star a) s c) \<longleftrightarrow>
     ((s', c') = (s, c) \<or>
      (\<exists>t d. (t, d) \<in> set (ms a s c) \<and> length t < length s \<and> (s', c') \<in> set (ms (Star a) t d)))"
  by (subst ms.simps) (auto split: if_splits)

lemma in_ms_LazyStar:
  "(s', c') \<in> set (ms (LazyStar a) s c) \<longleftrightarrow>
     ((s', c') = (s, c) \<or>
      (\<exists>t d. (t, d) \<in> set (ms a s c) \<and> length t < length s \<and> (s', c') \<in> set (ms (LazyStar a) t d)))"
  by (subst ms.simps) (auto split: if_splits)

lemma in_ms_Grp:
  "(s', c') \<in> set (ms (Grp i a) s c) \<longleftrightarrow>
     (\<exists>d. (s', d) \<in> set (ms a s c) \<and> c' = (i, take (length s - length s') s) # d)"
  by auto

lemma ms_keeps:
  "(s', c') \<in> set (ms r s c) \<Longrightarrow> map_of c i \<noteq> None \<Longrightarrow> map_of c' i \<noteq> None"
proof (induction r s c arbitrary: s' c' rule: ms.induct)
  case (1 a s c)
  then show ?case by (auto split: list.splits if_splits)
next
  case (2 P s c)
  then show ?case by (auto split: list.splits if_splits)
next
  case (3 s c)
  then show ?case by simp
next
  case (4 a b s c)
  from "4.prems"(1) obtain t d where td: "(t, d) \<in> set (ms a s c)" "(s', c') \<in> set (ms b t d)"
    unfolding in_ms_Seq by blast
  from "4.IH"(1)[OF td(1) "4.prems"(2)] have "map_of d i \<noteq> None" .
  from "4.IH"(2)[OF td(1) refl td(2) this] show ?case .
next
  case (5 a b s c)
  then show ?case by auto
next
  case (6 a s c)
  from "6.prems"(1) consider "(s', c') = (s, c)"
    | t d where "(t, d) \<in> set (ms a s c)" "length t < length s" "(s', c') \<in> set (ms (Star a) t d)"
    unfolding in_ms_Star[of s' c' a s c] by blast
  then show ?case
  proof cases
    case 1
    then show ?thesis using "6.prems" by simp
  next
    case 2
    from "6.IH"(1)[OF 2(1) "6.prems"(2)] have "map_of d i \<noteq> None" .
    from "6.IH"(2)[OF 2(1) refl 2(2) 2(3) this] show ?thesis .
  qed
next
  case (7 a s c)
  from "7.prems"(1) consider "(s', c') = (s, c)"
    | t d where "(t, d) \<in> set (ms a s c)" "length t < length s" "(s', c') \<in> set (ms (LazyStar a) t d)"
    unfolding in_ms_LazyStar[of s' c' a s c] by blast
  then show ?case
  proof cases
    case 1
    then show ?thesis using "7.prems" by simp
  next
    case 2
    from "7.IH"(1)[OF 2(1) "7.prems"(2)] have "map_of d i \<noteq> None" .
    from "7.IH"(2)[OF 2(1) refl 2(2) 2(3) this] show ?thesis .
  qed
next
  case (8 j a s c)
  from "8.prems"(1) obtain d where d: "(s', d) \<in> set (ms a s c)"
      "c' = (j, take (length s - length s') s) # d"
    unfolding in_ms_Grp by blast
  from "8.IH"[OF d(1) "8.prems"(2)] d(2) show ?case by simp
qed

lemma ms_sets:
  "(s', c') \<in> set (ms r s c) \<Longrightarrow> sets i r \<Longrightarrow> map_of c' i \<noteq> None"
proof (induction r arbitrary: s c s' c')
  case (Seq a b)
  from Seq.prems(1) obtain t d where td: "(t, d) \<in> set (ms a s c)" "(s', c') \<in> set (ms b t d)"
    unfolding in_ms_Seq by blast
  show ?case
  proof (cases "sets i a")
    case True
    from Seq.IH(1)[OF td(1) True] have "map_of d i \<noteq> None" .
    from ms_keeps[OF td(2) this] show ?thesis .
  next
    case False
    with Seq.prems(2) have "sets i b" by simp
    from Seq.IH(2)[OF td(2) this] show ?thesis .
  qed
next
  case (Alt a b)
  then show ?case by auto
next
  case (Grp j a)
  from Grp.prems(1) obtain d where d: "(s', d) \<in> set (ms a s c)"
      "c' = (j, take (length s - length s') s) # d"
    unfolding in_ms_Grp by blast
  show ?case
  proof (cases "i = j")
    case True
    with d(2) show ?thesis by simp
  next
    case False
    with Grp.prems(2) have "sets i a" by simp
    from Grp.IH[OF d(1) this] d(2) show ?thesis by simp
  qed
qed simp_all

lemma ms_length:
  "(s', c') \<in> set (ms r s c) \<Longrightarrow>
     length s' \<le> length s \<and> (consumes r \<longrightarrow> length s' < length s)"
proof (induction r s c arbitrary: s' c' rule: ms.induct)
  case (1 a s c)
  then show ?case by (auto split: list.splits if_splits)
next
  case (2 P s c)
  then show ?case by (auto split: list.splits if_splits)
next
  case (3 s c)
  then show ?case by simp
next
  case (4 a b s c)
  from "4.prems"(1) obtain t d where td: "(t, d) \<in> set (ms a s c)" "(s', c') \<in> set (ms b t d)"
    unfolding in_ms_Seq by blast
  from "4.IH"(1)[OF td(1)] "4.IH"(2)[OF td(1) refl td(2)] show ?case by auto
next
  case (5 a b s c)
  then show ?case by auto
next
  case (6 a s c)
  from "6.prems"(1) consider "(s', c') = (s, c)"
    | t d where "(t, d) \<in> set (ms a s c)" "length t < length s" "(s', c') \<in> set (ms (Star a) t d)"
    unfolding in_ms_Star[of s' c' a s c] by blast
  then show ?case
  proof cases
    case 1
    then show ?thesis by simp
  next
    case 2
    from "6.IH"(2)[OF 2(1) refl 2(2) 2(3)] 2(2) show ?thesis by simp
  qed
next
  case (7 a s c)
  from "7.prems"(1) consider "(s', c') = (s, c)"
    | t d where "(t, d) \<in> set (ms a s c)" "length t < length s" "(s', c') \<in> set (ms (LazyStar a) t d)"
    unfolding in_ms_LazyStar[of s' c' a s c] by blast
  then show ?case
  proof cases
    case 1
    then show ?thesis by simp
  next
    case 2
    from "7.IH"(2)[OF 2(1) refl 2(2) 2(3)] 2(2) show ?thesis by simp
  qed
next
  case (8 j a s c)
  from "8.prems"(1) obtain d where d: "(s', d) \<in> set (ms a s c)"
    unfolding in_ms_Grp by blast
  from "8.IH"[OF d] show ?case by simp
qed

lemma finditer_consumes:
  assumes "consumes r"
  shows "finditer r s =
     (case ms r s [] of
        [] \<Rightarrow> (case s of [] \<Rightarrow> [] | x # t \<Rightarrow> finditer r t)
      | (rest, c) # others \<Rightarrow> c # finditer r rest)"
proof (cases "ms r s []")
  case Nil
  then show ?thesis by (subst finditer.simps) simp
next
  case (Cons p others)
  obtain rest c where p: "p = (rest, c)" by (cases p)
  have "(rest, c) \<in> set (ms r s [])" using Cons p by simp
  from ms_length[OF this] assms have "length rest < length s" by simp
  then show ?thesis by (subst finditer.simps) (simp add: Cons p)
qed

lemma finditer_head:
  "m \<in> set (finditer r s) \<Longrightarrow> \<exists>s0 rest others. ms r s0 [] = (rest, m) # others"
proof (induction r s rule: finditer.induct)
  case (1 r s)
  note eq = finditer.simps[of r s]
  show ?case
  proof (cases "ms r s []")
    case Nil
    show ?thesis
    proof (cases s)
      case sNil: Nil
      from "1.prems"[unfolded eq Nil] show ?thesis by (simp add: sNil)
    next
      case (Cons x t)
      from "1.prems"[unfolded eq Nil] have "m \<in> set (finditer r t)" by (simp add: Cons)
      from "1.IH"(1)[OF Nil Cons this] show ?thesis .
    qed
  next
    case (Cons p others)
    obtain rest c where p: "p = (rest, c)" by (cases p)
    note hd = Cons[unfolded p]
    show ?thesis
    proof (cases "m = c")
      case True
      with hd show ?thesis by blast
    next
      case False
      show ?thesis
      proof (cases "length rest < length s")
        case True
        from "1.prems"[unfolded eq hd] False True have "m \<in> set (finditer r rest)" by simp
        from "1.IH"(2)[OF hd refl True this] show ?thesis .
      next
        case nl: False
        show ?thesis
        proof (cases s)
          case sNil: Nil
          from "1.prems"[unfolded eq hd] False nl show ?thesis by (simp add: sNil)
        next
          case sCons: (Cons x t)
          from "1.prems"[unfolded eq hd] False nl have "m \<in> set (finditer r t)"
            by (simp add: sCons)
          from "1.IH"(3)[OF hd refl nl sCons this] show ?thesis .
        qed
      qed
    qed
  qed
qed

lemma finditer_sets:
  assumes "m \<in> set (finditer r s)" "sets i r"
  shows "group m i \<noteq> None"
proof -
  from finditer_head[OF assms(1)] obtain s0 rest others where "ms r s0 [] = (rest, m) # others"
    by blast
  then have "(rest, m) \<in> set (ms r s0 [])" by simp
  from ms_sets[OF this assms(2)] show ?thesis by (simp add: group_def)
qed

lemma sets_Plus [simp]: "sets i (Plus r) = sets i r"
  by (simp add: Plus_def)

lemma consumes_Plus [simp]: "consumes (Plus r) = consumes r"
  by (simp add: Plus_def)

lemma pattern_groups:
  "sets 1 operation_pattern" "sets 2 operation_pattern"
  "sets 1 apply_pattern" "sets 2 apply_pattern" "sets 3 apply_pattern"
  "sets 1 kv_pattern"
  "sets 1 sensitive_pattern"
  "sets 1 struct_pattern" "sets 2 struct_pattern"
  "sets 1 member_pattern" "sets 2 member_pattern"
  "sets 1 doc_pattern"
  by (simp_all add: operation_pattern_def apply_pattern_def kv_pattern_def sensitive_pattern_def
      struct_pattern_def member_pattern_def doc_pattern_def)

lemma pattern_consumes:
  "consumes operation_pattern" "consumes apply_pattern" "consumes kv_pattern"
  "consumes sensitive_pattern" "consumes struct_pattern" "consumes member_pattern"
  "consumes doc_pattern"
  by (simp_all add: operation_pattern_def apply_pattern_def kv_pattern_def sensitive_pattern_def
      struct_pattern_def member_pattern_def doc_pattern_def)











subsection \<open>Key-value pairs of a trait body\<close>











subsection \<open>The scanners\<close>

lemma map_of_extract_operations:
  "map_of (extract_operations_with_traits content) op =
     (case headers_named op content of [] \<Rightarrow> None
      | m # rest \<Rightarrow> Some (op_info (group_str (last (m # rest)) 1)))"
  unfolding extract_operations_with_traits_def headers_named_def
  by (simp add: map_of_foldl_dict_set split: list.splits)

lemma scanned_declared:
  "(map_of (extract_operations_with_traits main_spec) op = None) = (headers_named op main_spec = [])"
  by (simp add: map_of_extract_operations split: list.splits)

lemma op_info_fields [simp]:
  "readonly (op_info b) = (if str_in ''@readonly'' b then Some True else None)"
  "idempotent (op_info b) = (if str_in ''@idempotent'' b then Some True else None)"
  "pagination (op_info b) = None"
  "retry (op_info b) = None"
  "idempotency (op_info b) = None"
  by (simp_all add: op_info_def no_traits_def Let_def)

lemma op_info_empty: "op_info [] = no_traits"
  by (simp add: op_info_def Let_def)

lemma scanned_structured_None:
  assumes "map_of (extract_operations_with_traits content) op = Some t"
  shows "pagination t = None" "retry t = None" "idempotency t = None"
    "readonly t \<noteq> Some False" "idempotent t \<noteq> Some False"
  using assms by (auto simp: map_of_extract_operations split: list.splits if_splits)

lemma or_empty_scanned_fields [simp]:
  "pagination (or_empty (map_of (extract_operations_with_traits content) op)) = None"
  "retry (or_empty (map_of (extract_operations_with_traits content) op)) = None"
  "idempotency (or_empty (map_of (extract_operations_with_traits content) op)) = None"
  by (auto simp: or_empty_def no_traits_def scanned_structured_None split: option.splits)

lemma last_headers_named:
  "headers_named op content = m # rest \<Longrightarrow>
     last (m # rest) \<in> set (finditer operation_pattern content) \<and>
     group_str (last (m # rest)) 2 = op"
proof -
  assume a: "headers_named op content = m # rest"
  have "last (m # rest) \<in> set (headers_named op content)"
    unfolding a by (rule last_in_set) simp
  then show ?thesis by (simp add: headers_named_def)
qed

lemma distinct_extract_operations: "distinct (map fst (extract_operations_with_traits content))"
  unfolding extract_operations_with_traits_def
  by (rule distinct_foldl_dict_set) simp

lemma scanned_flag_readonly:
  "scanned_flag readonly main_spec op = declared_with ''@readonly'' main_spec op"
  by (simp add: scanned_flag_def declared_with_def map_of_extract_operations split: list.splits)

lemma scanned_flag_idempotent:
  "scanned_flag idempotent main_spec op = declared_with ''@idempotent'' main_spec op"
  by (simp add: scanned_flag_def declared_with_def map_of_extract_operations split: list.splits)

lemma declared_scanned:
  "declared_with marker main_spec op \<Longrightarrow> map_of (extract_operations_with_traits main_spec) op \<noteq> None"
  by (auto simp: declared_with_def map_of_extract_operations split: list.splits)

lemma detect_pagination_values:
  "map_of (detect_pagination_from_docs content) op = Some info \<Longrightarrow> info = link_pagination"
  unfolding detect_pagination_from_docs_def
  by (auto simp: map_of_foldl_dict_set split: list.splits)

lemma distinct_overlay_step: "distinct (map fst traits) \<Longrightarrow> distinct (map fst (overlay_step traits m))"
  by (simp add: overlay_step_def Let_def keys_dict_modify distinct_dict_ensure)

lemma distinct_foldl_overlay_step:
  "distinct (map fst traits) \<Longrightarrow> distinct (map fst (foldl overlay_step traits xs))"
  by (induction xs arbitrary: traits) (auto simp: distinct_overlay_step)

lemma distinct_extract_overlay_traits: "distinct (map fst (extract_overlay_traits content))"
  by (simp add: extract_overlay_traits_def distinct_foldl_overlay_step)

lemma distinct_overlay_docs: "ov \<in> set (overlay_docs files) \<Longrightarrow> distinct (map fst ov)"
  by (auto simp: overlay_docs_def distinct_extract_overlay_traits)




lemma extract_sensitive_types_set:
  "extract_sensitive_types content =
     set (map (\<lambda>m. group_str m 1) (finditer sensitive_pattern content))"
  by (simp add: extract_sensitive_types_def foldl_insert_image)

lemma finite_extract_sensitive_types: "finite (extract_sensitive_types content)"
  by (simp add: extract_sensitive_types_set)

lemma sensitive_fields_eq:
  "sensitive_fields S body = map (\<lambda>mm. ''$.'' @ group_str mm 1) (qualifying_members S body)"
  unfolding sensitive_fields_def qualifying_members_def
  using foldl_append_if[of "\<lambda>mm. group_str mm 2 \<in> S" "\<lambda>mm. ''$.'' @ group_str mm 1" "[]"]
  by simp

lemma extract_structures_fold:
  "extract_structures_with_sensitive_fields content S =
     foldl (\<lambda>acc st. dict_set (group_str st 1) (sensitive_fields S (group_str st 2)) acc) []
       (filter (\<lambda>st. sensitive_fields S (group_str st 2) \<noteq> []) (finditer struct_pattern content))"
  unfolding extract_structures_with_sensitive_fields_def Let_def
  by (rule foldl_dict_set_if)

lemma distinct_extract_structures:
  "distinct (map fst (extract_structures_with_sensitive_fields content S))"
  unfolding extract_structures_fold by (rule distinct_foldl_dict_set) simp

lemma map_of_extract_structures:
  "map_of (extract_structures_with_sensitive_fields content S) n =
     (case filter (\<lambda>st. sensitive_fields S (group_str st 2) \<noteq> []) (structs_named n content) of
        [] \<Rightarrow> None
      | y # ys \<Rightarrow> Some (sensitive_fields S (group_str (last (y # ys)) 2)))"
proof -
  have "filter (\<lambda>st. group_str st 1 = n)
          (filter (\<lambda>st. sensitive_fields S (group_str st 2) \<noteq> []) (finditer struct_pattern content)) =
        filter (\<lambda>st. sensitive_fields S (group_str st 2) \<noteq> []) (structs_named n content)"
    by (simp add: structs_named_def conj_commute)
  then show ?thesis
    unfolding extract_structures_fold map_of_foldl_dict_set by (simp split: list.splits)
qed

subsection \<open>Merging the overlays\<close>

lemma map_of_merge_op:
  "map_of (merge_op ops (op_name, traits)) =
     (map_of ops)(op_name \<mapsto> merge_traits traits (or_empty (map_of ops op_name)))"
  by (auto simp: merge_op_def map_of_dict_modify map_of_dict_ensure or_empty_def fun_eq_iff split: option.splits)

lemma distinct_merge_op: "distinct (map fst ops) \<Longrightarrow> distinct (map fst (merge_op ops item))"
  by (cases item) (simp add: merge_op_def keys_dict_modify distinct_dict_ensure)

lemma distinct_merge_overlay: "distinct (map fst ops) \<Longrightarrow> distinct (map fst (merge_overlay ops ov))"
  unfolding merge_overlay_def
  by (induction ov arbitrary: ops) (auto simp: distinct_merge_op)

lemma map_of_merge_overlay_other:
  "op \<notin> fst ` set ov \<Longrightarrow> map_of (merge_overlay ops ov) op = map_of ops op"
  unfolding merge_overlay_def
  by (induction ov arbitrary: ops) (auto simp: map_of_merge_op)

lemma map_of_merge_overlay:
  "distinct (map fst ov) \<Longrightarrow>
   map_of (merge_overlay ops ov) op =
     (case map_of ov op of None \<Rightarrow> map_of ops op
      | Some traits \<Rightarrow> Some (merge_traits traits (or_empty (map_of ops op))))"
proof (induction ov arbitrary: ops)
  case Nil
  then show ?case by (simp add: merge_overlay_def)
next
  case (Cons a ov)
  obtain k tr where a: "a = (k, tr)" by (cases a)
  have step: "merge_overlay ops (a # ov) = merge_overlay (merge_op ops (k, tr)) ov"
    by (simp add: merge_overlay_def a)
  show ?case
  proof (cases "k = op")
    case True
    with Cons.prems a have "op \<notin> fst ` set ov" by auto
    then have "map_of (merge_overlay (merge_op ops (k, tr)) ov) op = map_of (merge_op ops (k, tr)) op"
      by (rule map_of_merge_overlay_other)
    then show ?thesis
      unfolding step by (simp add: map_of_merge_op a True)
  next
    case False
    from Cons.prems have "distinct (map fst ov)" by simp
    from Cons.IH[OF this, of "merge_op ops (k, tr)"] False show ?thesis
      unfolding step by (simp add: map_of_merge_op a split: option.splits)
  qed
qed

lemma read_overlays_docs: "read_overlays ops files = foldl merge_overlay ops (overlay_docs files)"
  unfolding read_overlays_def overlay_docs_def
  by (induction files arbitrary: ops) (auto split: prod.splits)

lemma acc_traits_untargeted:
  "\<not> list_ex (\<lambda>ov. map_of ov op \<noteq> None) docs \<Longrightarrow> acc_traits op t docs = t"
  by (induction docs arbitrary: t) (auto simp: acc_traits_def)

lemma map_of_merge_docs:
  "(\<And>ov. ov \<in> set docs \<Longrightarrow> distinct (map fst ov)) \<Longrightarrow>
   map_of (foldl merge_overlay ops docs) op =
     (if map_of ops op = None \<and> \<not> list_ex (\<lambda>ov. map_of ov op \<noteq> None) docs then None
      else Some (acc_traits op (or_empty (map_of ops op)) docs))"
proof (induction docs rule: rev_induct)
  case Nil
  then show ?case by (auto simp: acc_traits_def or_empty_def)
next
  case (snoc ov docs)
  have d: "distinct (map fst ov)" using snoc.prems by simp
  have IH: "map_of (foldl merge_overlay ops docs) op =
     (if map_of ops op = None \<and> \<not> list_ex (\<lambda>ov. map_of ov op \<noteq> None) docs then None
      else Some (acc_traits op (or_empty (map_of ops op)) docs))"
    using snoc by simp
  show ?case
    using acc_traits_untargeted[of op docs no_traits]
    by (auto simp: map_of_merge_overlay[OF d] IH acc_traits_def or_empty_def split: option.splits)
qed

lemma distinct_merge_docs:
  "distinct (map fst ops) \<Longrightarrow> distinct (map fst (foldl merge_overlay ops docs))"
  by (induction docs arbitrary: ops) (auto simp: distinct_merge_overlay)

lemma merge_traits_flags [simp]:
  "readonly (merge_traits traits t) = readonly t"
  "idempotent (merge_traits traits t) = idempotent t"
  by (auto simp: merge_traits_def Let_def split: option.splits)

lemma merge_traits_fields:
  "pagination (merge_traits traits t) =
     (case map_of traits ''pagination'' of None \<Rightarrow> pagination t | Some p \<Rightarrow> Some p)"
  "retry (merge_traits traits t) =
     (case map_of traits ''retry'' of None \<Rightarrow> retry t | Some p \<Rightarrow> Some p)"
  "idempotency (merge_traits traits t) =
     (case map_of traits ''idempotency'' of None \<Rightarrow> idempotency t | Some p \<Rightarrow> Some p)"
  by (auto simp: merge_traits_def Let_def split: option.splits)

lemma acc_traits_snoc:
  "acc_traits op t (docs @ [ov]) =
     (case map_of ov op of None \<Rightarrow> acc_traits op t docs
      | Some traits \<Rightarrow> merge_traits traits (acc_traits op t docs))"
  by (simp add: acc_traits_def split: option.splits)

lemma supplied_in_snoc:
  "supplied_in tn op (docs @ [ov]) =
     supplied_in tn op docs @
     (case map_of ov op of None \<Rightarrow> []
      | Some traits \<Rightarrow> (case map_of traits tn of None \<Rightarrow> [] | Some p \<Rightarrow> [p]))"
  by (simp add: supplied_in_def List.map_filter_def split: option.splits)

lemma acc_traits_Nil [simp]: "acc_traits op t [] = t"
  by (simp add: acc_traits_def)

lemma acc_traits_readonly [simp]: "readonly (acc_traits op t docs) = readonly t"
  by (induction docs rule: rev_induct) (simp_all add: acc_traits_snoc split: option.splits)

lemma acc_traits_idempotent [simp]: "idempotent (acc_traits op t docs) = idempotent t"
  by (induction docs rule: rev_induct) (simp_all add: acc_traits_snoc split: option.splits)

lemma acc_traits_pagination:
  "pagination (acc_traits op t docs) = last_or (pagination t) (supplied_in ''pagination'' op docs)"
  by (induction docs rule: rev_induct)
     (auto simp: acc_traits_snoc supplied_in_snoc merge_traits_fields last_or_def acc_traits_def supplied_in_def List.map_filter_def split: option.splits)

lemma acc_traits_retry:
  "retry (acc_traits op t docs) = last_or (retry t) (supplied_in ''retry'' op docs)"
  by (induction docs rule: rev_induct)
     (auto simp: acc_traits_snoc supplied_in_snoc merge_traits_fields last_or_def acc_traits_def supplied_in_def List.map_filter_def split: option.splits)

lemma acc_traits_idempotency:
  "idempotency (acc_traits op t docs) = last_or (idempotency t) (supplied_in ''idempotency'' op docs)"
  by (induction docs rule: rev_induct)
     (auto simp: acc_traits_snoc supplied_in_snoc merge_traits_fields last_or_def acc_traits_def supplied_in_def List.map_filter_def split: option.splits)

lemma supplied_targeted: "supplied tn op files \<noteq> [] \<Longrightarrow> targeted op files"
  unfolding supplied_def targeted_def supplied_in_def List.map_filter_def list_ex_iff
  by (auto simp: filter_empty_conv split: option.splits)


subsection \<open>The final model\<close>

lemma keys_apply_doc_pagination: "map fst (apply_doc_pagination ops docp) = map fst ops"
  unfolding apply_doc_pagination_def
  by (induction docp arbitrary: ops) (auto simp: keys_dict_modify split: option.splits)

lemma map_of_apply_doc_pagination:
  "map_of (apply_doc_pagination ops docp) op =
     map_option (with_doc_pagination docp op) (map_of ops op)"
proof (induction docp arbitrary: ops)
  case Nil
  then show ?case
    by (cases "map_of ops op") (auto simp: apply_doc_pagination_def with_doc_pagination_def split: option.splits)
next
  case (Cons a docp)
  obtain k info where a: "a = (k, info)" by (cases a)
  define ops' where "ops' =
     (case map_of ops k of None \<Rightarrow> ops
      | Some t \<Rightarrow> if pagination t = None
                  then dict_modify k (\<lambda>t. t\<lparr>pagination := Some info\<rparr>) ops else ops)"
  have step: "apply_doc_pagination ops (a # docp) = apply_doc_pagination ops' docp"
    by (simp add: apply_doc_pagination_def a ops'_def)
  have "map_of ops' op =
     (if k = op then map_option (\<lambda>t. case pagination t of Some p \<Rightarrow> t | None \<Rightarrow> t\<lparr>pagination := Some info\<rparr>) (map_of ops op)
      else map_of ops op)"
    by (auto simp: ops'_def map_of_dict_modify split: option.splits)
  then show ?case
    unfolding step Cons.IH[of ops']
    by (cases "map_of ops op") (auto simp: a with_doc_pagination_def split: option.splits)
qed

lemma distinct_merged_operations: "distinct (map fst (merged_operations main_spec files))"
  by (simp add: merged_operations_def keys_apply_doc_pagination read_overlays_docs
      distinct_merge_docs distinct_extract_operations)

lemma operations_build:
  "operations (build_behavior_model main_spec files) =
     map (\<lambda>(k, t). (k, final_entry t)) (sort_key fst (merged_operations main_spec files))"
  using foldl_dict_set_fresh[of "[]" "sort_key fst (merged_operations main_spec files)" final_entry]
  by (simp add: build_behavior_model_def Let_def distinct_keys_sort_key distinct_merged_operations)

lemma keys_operations_build:
  "map fst (operations (build_behavior_model main_spec files)) =
     map fst (sort_key fst (merged_operations main_spec files))"
  by (simp add: operations_build case_prod_unfold comp_def)

lemma map_of_operations_build:
  "map_of (operations (build_behavior_model main_spec files)) op =
     map_option final_entry (map_of (merged_operations main_spec files) op)"
  by (simp add: operations_build map_of_map map_of_sort_key distinct_merged_operations)

lemma map_of_merged_operations:
  "map_of (merged_operations main_spec files) op =
     (let scanned = map_of (extract_operations_with_traits main_spec) op in
      if scanned = None \<and> \<not> targeted op files then None
      else Some (with_doc_pagination (detect_pagination_from_docs main_spec) op
                  (acc_traits op (or_empty scanned) (overlay_docs files))))"
  using map_of_merge_docs[of "overlay_docs files" "extract_operations_with_traits main_spec" op]
  by (simp add: merged_operations_def map_of_apply_doc_pagination read_overlays_docs
      distinct_overlay_docs targeted_def Let_def)

lemma final_entry_of_operation:
  "map_of (operations (build_behavior_model main_spec files)) op =
     (if map_of (extract_operations_with_traits main_spec) op = None \<and> \<not> targeted op files
      then None
      else Some
        \<lparr>out_readonly = (if scanned_flag readonly main_spec op then Some True else None),
         out_idempotent =
           (if scanned_flag idempotent main_spec op then Some (VBool True)
            else map_option supported_of (last_or None (supplied ''idempotency'' op files))),
         out_pagination =
           last_or (if map_of (detect_pagination_from_docs main_spec) op = None then None
                    else Some link_pagination)
                   (supplied ''pagination'' op files),
         out_retry =
           last_or (Some (if scanned_flag readonly main_spec op then default_retry_readonly
                          else default_retry_other))
                   (supplied ''retry'' op files)\<rparr>)"
proof -
  let ?sc = "map_of (extract_operations_with_traits main_spec) op"
  let ?t = "with_doc_pagination (detect_pagination_from_docs main_spec) op
              (acc_traits op (or_empty ?sc) (overlay_docs files))"
  have ro: "(readonly ?t = Some True) = scanned_flag readonly main_spec op"
    by (auto simp: with_doc_pagination_def scanned_flag_def or_empty_def no_traits_def split: option.splits)
  have idem: "(idempotent ?t = Some True) = scanned_flag idempotent main_spec op"
    by (auto simp: with_doc_pagination_def scanned_flag_def or_empty_def no_traits_def split: option.splits)
  have r: "retry ?t = last_or None (supplied ''retry'' op files)"
    by (auto simp: with_doc_pagination_def acc_traits_retry supplied_def split: option.splits)
  have i: "idempotency ?t = last_or None (supplied ''idempotency'' op files)"
    by (auto simp: with_doc_pagination_def acc_traits_idempotency supplied_def split: option.splits)
  have p: "pagination ?t =
      last_or (if map_of (detect_pagination_from_docs main_spec) op = None then None
               else Some link_pagination) (supplied ''pagination'' op files)"
    using detect_pagination_values[of main_spec op]
    by (auto simp: with_doc_pagination_def acc_traits_pagination supplied_def last_or_def split: option.splits)
  have "final_entry ?t =
        \<lparr>out_readonly = (if scanned_flag readonly main_spec op then Some True else None),
         out_idempotent =
           (if scanned_flag idempotent main_spec op then Some (VBool True)
            else map_option supported_of (last_or None (supplied ''idempotency'' op files))),
         out_pagination =
           last_or (if map_of (detect_pagination_from_docs main_spec) op = None then None
                    else Some link_pagination)
                   (supplied ''pagination'' op files),
         out_retry =
           last_or (Some (if scanned_flag readonly main_spec op then default_retry_readonly
                          else default_retry_other))
                   (supplied ''retry'' op files)\<rparr>"
    unfolding final_entry_def ro idem r i p
    by (auto simp: last_or_def supported_of_def split: option.splits)
  then show ?thesis
    by (simp add: map_of_operations_build map_of_merged_operations Let_def)
qed

lemma sensitiveTypes_build:
  "sensitiveTypes (build_behavior_model main_spec files) =
     sorted_list_of_set (extract_sensitive_types main_spec)"
  by (simp add: build_behavior_model_def Let_def)

lemma redaction_build:
  "redaction (build_behavior_model main_spec files) =
     extract_structures_with_sensitive_fields main_spec (extract_sensitive_types main_spec)"
  by (simp add: build_behavior_model_def Let_def)

lemma sorted_operations_build:
  "sorted (map fst (operations (build_behavior_model main_spec files)))"
  "distinct (map fst (operations (build_behavior_model main_spec files)))"
  unfolding keys_operations_build
  by (simp, simp only: distinct_keys_sort_key distinct_merged_operations)

lemma build_depends_on_operations:
  "operations (build_behavior_model main_spec files) = operations (build_behavior_model main_spec files') \<Longrightarrow>
   build_behavior_model main_spec files = build_behavior_model main_spec files'"
  by (simp add: build_behavior_model_def Let_def)

section \<open>The claims\<close>

text \<open>
  C1. An operation declared in the primary document with the \<open>@idempotent\<close> marker has
  \<open>idempotent = true\<close> in the final model, whatever the overlays say. An operation
  without the marker for which overlays give an \<open>idempotency\<close> trait gets the value of
  the trait's \<open>supported\<close> key, and \<open>false\<close> when the payload has no such key (the trait
  in force is the one of the last overlay document that gives it).
\<close>

theorem direct_idempotent_marker_wins:
  "(declared_with ''@idempotent'' main_spec op \<longrightarrow>
      (\<exists>e. map_of (operations (build_behavior_model main_spec overlay_files)) op = Some e \<and>
           out_idempotent e = Some (VBool True))) \<and>
   (\<not> declared_with ''@idempotent'' main_spec op \<and>
    supplied ''idempotency'' op overlay_files \<noteq> [] \<longrightarrow>
      (\<exists>e. map_of (operations (build_behavior_model main_spec overlay_files)) op = Some e \<and>
           out_idempotent e =
             Some (case map_of (last (supplied ''idempotency'' op overlay_files)) ''supported'' of
                     Some v \<Rightarrow> v | None \<Rightarrow> VBool False)))"
  using declared_scanned[of "''@idempotent''" main_spec op]
    supplied_targeted[of "''idempotency''" op overlay_files]
  by (auto simp: final_entry_of_operation scanned_flag_idempotent last_or_def supported_of_def)

theorem direct_idempotent_marker_wins_witness:
  "(\<exists>e. map_of (operations (build_behavior_model
            ''@idempotent\<newline>operation PutA {\<newline>operation MakeB {''
            [(''o.smithy'', ''apply PutA @idempotency({ supported: false }) apply MakeB @idempotency({ supported: true })'')]))
          ''PutA'' = Some e \<and> out_idempotent e = Some (VBool True)) \<and>
   (\<exists>e. map_of (operations (build_behavior_model
            ''@idempotent\<newline>operation PutA {\<newline>operation MakeB {''
            [(''o.smithy'', ''apply PutA @idempotency({ supported: false }) apply MakeB @idempotency({ supported: true })'')]))
          ''MakeB'' = Some e \<and> out_idempotent e = Some (VBool True))"
proof -
  let ?m = "''@idempotent\<newline>operation PutA {\<newline>operation MakeB {''"
  let ?f = "[(''o.smithy'', ''apply PutA @idempotency({ supported: false }) apply MakeB @idempotency({ supported: true })'')]"
  have a: "declared_with ''@idempotent'' ?m ''PutA''" by code_simp
  have b: "\<not> declared_with ''@idempotent'' ?m ''MakeB''" by code_simp
  have s: "supplied ''idempotency'' ''MakeB'' ?f = [[(''supported'', VBool True)]]" by code_simp
  from direct_idempotent_marker_wins[of ?m "''PutA''" ?f]
       direct_idempotent_marker_wins[of ?m "''MakeB''" ?f] a b
  show ?thesis unfolding s by simp
qed

text \<open>
  C2. Every entry of the final model has a retry object. When no overlay gives a
  \<open>retry\<close> trait for the operation, it is
  \<open>{max: 3, base_delay_seconds: 1, backoff: "exp+jitter"}\<close> for a readonly operation and
  \<open>{max: 0}\<close> otherwise.
\<close>

theorem default_retry_policy:
  assumes "map_of (operations (build_behavior_model main_spec overlay_files)) op = Some e"
  shows "out_retry e \<noteq> None \<and>
         (supplied ''retry'' op overlay_files = [] \<longrightarrow>
            out_retry e =
              Some (if out_readonly e = Some True
                    then [(''max'', VInt 3), (''base_delay_seconds'', VInt 1),
                          (''backoff'', VStr ''exp+jitter'')]
                    else [(''max'', VInt 0)]))"
  using assms
  by (auto simp: final_entry_of_operation last_or_def default_retry_readonly_def
      default_retry_other_def split: if_splits)

theorem default_retry_policy_witness:
  "(\<exists>e. map_of (operations (build_behavior_model
            ''@readonly\<newline>operation ListA {\<newline>operation MakeB {'' [])) ''ListA'' = Some e \<and>
        out_retry e = Some [(''max'', VInt 3), (''base_delay_seconds'', VInt 1),
                            (''backoff'', VStr ''exp+jitter'')]) \<and>
   (\<exists>e. map_of (operations (build_behavior_model
            ''@readonly\<newline>operation ListA {\<newline>operation MakeB {'' [])) ''MakeB'' = Some e \<and>
        out_retry e = Some [(''max'', VInt 0)])"
proof -
  let ?m = "''@readonly\<newline>operation ListA {\<newline>operation MakeB {''"
  have ev: "operations (build_behavior_model ?m []) =
      [(''ListA'', \<lparr>out_readonly = Some True, out_idempotent = None, out_pagination = None,
          out_retry = Some [(''max'', VInt 3), (''base_delay_seconds'', VInt 1),
                            (''backoff'', VStr ''exp+jitter'')]\<rparr>),
       (''MakeB'', \<lparr>out_readonly = None, out_idempotent = None, out_pagination = None,
          out_retry = Some [(''max'', VInt 0)]\<rparr>)]"
    by code_simp
  have a: "map_of (operations (build_behavior_model ?m [])) ''ListA'' =
      Some \<lparr>out_readonly = Some True, out_idempotent = None, out_pagination = None,
          out_retry = Some [(''max'', VInt 3), (''base_delay_seconds'', VInt 1),
                            (''backoff'', VStr ''exp+jitter'')]\<rparr>"
    unfolding ev by simp
  have b: "map_of (operations (build_behavior_model ?m [])) ''MakeB'' =
      Some \<lparr>out_readonly = None, out_idempotent = None, out_pagination = None,
          out_retry = Some [(''max'', VInt 0)]\<rparr>"
    unfolding ev by simp
  have s: "supplied ''retry'' op [] = []" for op
    by (simp add: supplied_def overlay_docs_def supplied_in_def List.map_filter_def)
  from default_retry_policy[OF a] default_retry_policy[OF b] s show ?thesis
    unfolding a b by simp
qed

text \<open>
  C3 as stated fails: two overlay documents give \<open>retry\<close> for the same operation, and
  the final model holds the value of the second one, not of the first.
\<close>

theorem earlier_overlay_not_preserved:
  "extract_overlay_traits ''apply GetA @retry({ max: 1 })'' = [(''GetA'', [(''retry'', [(''max'', VInt 1)])])] \<and>
   extract_overlay_traits ''apply GetA @retry({ max: 2 })'' = [(''GetA'', [(''retry'', [(''max'', VInt 2)])])] \<and>
   operations (build_behavior_model ''operation GetA {''
      [(''a.smithy'', ''apply GetA @retry({ max: 1 })''),
       (''b.smithy'', ''apply GetA @retry({ max: 2 })'')]) =
     [(''GetA'', \<lparr>out_readonly = None, out_idempotent = None, out_pagination = None,
                  out_retry = Some [(''max'', VInt 2)]\<rparr>)]"
  by code_simp

text \<open>
  C3, as amended. When several overlay documents give the same structured trait for the
  same operation, the final model holds the value of the document processed last: each
  merge overwrites the trait.
\<close>

theorem later_overlay_overwrites:
  assumes "map_of (operations (build_behavior_model main_spec overlay_files)) op = Some e"
  shows "(supplied ''retry'' op overlay_files \<noteq> [] \<longrightarrow>
            out_retry e = Some (last (supplied ''retry'' op overlay_files))) \<and>
         (supplied ''pagination'' op overlay_files \<noteq> [] \<longrightarrow>
            out_pagination e = Some (last (supplied ''pagination'' op overlay_files))) \<and>
         (supplied ''idempotency'' op overlay_files \<noteq> [] \<and>
          \<not> declared_with ''@idempotent'' main_spec op \<longrightarrow>
            out_idempotent e =
              Some (case map_of (last (supplied ''idempotency'' op overlay_files)) ''supported'' of
                      Some v \<Rightarrow> v | None \<Rightarrow> VBool False))"
  using assms
  by (auto simp: final_entry_of_operation scanned_flag_idempotent last_or_def supported_of_def
      split: if_splits)

theorem later_overlay_overwrites_witness:
  "\<exists>e. map_of (operations (build_behavior_model ''operation GetA {''
      [(''a.smithy'', ''apply GetA @retry({ max: 1 }) apply GetA @pagination({ style: \"link\" }) apply GetA @idempotency({ supported: true })''),
       (''b.smithy'', ''apply GetA @retry({ max: 2 }) apply GetA @pagination({ style: \"page\" }) apply GetA @idempotency({ supported: false })'')]))
       ''GetA'' = Some e \<and>
     out_retry e = Some [(''max'', VInt 2)] \<and>
     out_pagination e = Some [(''style'', VStr ''page'')] \<and>
     out_idempotent e = Some (VBool False)"
proof -
  let ?m = "''operation GetA {''"
  let ?f = "[(''a.smithy'', ''apply GetA @retry({ max: 1 }) apply GetA @pagination({ style: \"link\" }) apply GetA @idempotency({ supported: true })''),
       (''b.smithy'', ''apply GetA @retry({ max: 2 }) apply GetA @pagination({ style: \"page\" }) apply GetA @idempotency({ supported: false })'')]"
  have r: "supplied ''retry'' ''GetA'' ?f = [[(''max'', VInt 1)], [(''max'', VInt 2)]]" by code_simp
  have p: "supplied ''pagination'' ''GetA'' ?f = [[(''style'', VStr ''link'')], [(''style'', VStr ''page'')]]" by code_simp
  have i: "supplied ''idempotency'' ''GetA'' ?f = [[(''supported'', VBool True)], [(''supported'', VBool False)]]" by code_simp
  have d: "\<not> declared_with ''@idempotent'' ?m ''GetA''" by code_simp
  have "map_of (operations (build_behavior_model ?m ?f)) ''GetA'' \<noteq> None" by code_simp
  then obtain e where e: "map_of (operations (build_behavior_model ?m ?f)) ''GetA'' = Some e" by blast
  from later_overlay_overwrites[OF e] d show ?thesis
    unfolding r p i e by simp
qed




text \<open>
  C5. For a structure declaration of the primary document (its name declared once), the
  redaction mapping has an entry exactly when at least one member has a type in the
  sensitive-type set; the entry lists the path \<open>$.<fieldName>\<close> of every such member, in
  declaration order, and of no other member. No name has more than one entry.
\<close>

theorem redaction_lists_sensitive_members:
  assumes "structs_named (group_str st 1) main_spec = [st]"
  shows "map_of (redaction (build_behavior_model main_spec overlay_files)) (group_str st 1) =
           (let qualifying = qualifying_members (extract_sensitive_types main_spec) (group_str st 2)
            in if qualifying = [] then None
               else Some (map (\<lambda>member_match. ''$.'' @ group_str member_match 1) qualifying)) \<and>
         distinct (map fst (redaction (build_behavior_model main_spec overlay_files)))"
  using assms
  by (simp add: redaction_build distinct_extract_structures map_of_extract_structures
      sensitive_fields_eq Let_def)

theorem redaction_lists_sensitive_members_witness:
  "map_of (redaction (build_behavior_model
      ''@sensitive\<newline>string Name\<newline>structure Person { name: Name, age: Integer } structure Tag { id: Integer }'' []))
      ''Person'' = Some [''$.name''] \<and>
   map_of (redaction (build_behavior_model
      ''@sensitive\<newline>string Name\<newline>structure Person { name: Name, age: Integer } structure Tag { id: Integer }'' []))
      ''Tag'' = None"
proof -
  let ?c = "''@sensitive\<newline>string Name\<newline>structure Person { name: Name, age: Integer } structure Tag { id: Integer }''"
  let ?p = "[(2, '' name: Name, age: Integer ''), (1, ''Person'')]"
  let ?t = "[(2, '' id: Integer ''), (1, ''Tag'')]"
  have gp: "group_str ?p 1 = ''Person''" "group_str ?p 2 = '' name: Name, age: Integer ''" by code_simp+
  have gt: "group_str ?t 1 = ''Tag''" "group_str ?t 2 = '' id: Integer ''" by code_simp+
  have sp: "structs_named ''Person'' ?c = [?p]" by code_simp
  have st: "structs_named ''Tag'' ?c = [?t]" by code_simp
  have qp: "qualifying_members (extract_sensitive_types ?c) '' name: Name, age: Integer '' =
      [[(2, ''Name''), (1, ''name'')]]" by code_simp
  have qt: "qualifying_members (extract_sensitive_types ?c) '' id: Integer '' = []" by code_simp
  from redaction_lists_sensitive_members[of ?p ?c "[]", unfolded gp, OF sp]
       redaction_lists_sensitive_members[of ?t ?c "[]", unfolded gt, OF st]
  show ?thesis unfolding qp qt by (simp add: group_str_def group_def)
qed

text \<open>
  C6. When an overlay gives a \<open>pagination\<close> trait for an operation, the final model
  holds the overlay's value only, whatever the prose detector found; the descriptor
  \<open>{style: "link"}\<close> of the prose detector appears only when no overlay gives one.
\<close>

theorem prose_pagination_is_fallback:
  assumes "map_of (operations (build_behavior_model main_spec overlay_files)) op = Some e"
  shows "(supplied ''pagination'' op overlay_files \<noteq> [] \<longrightarrow>
            out_pagination e = Some (last (supplied ''pagination'' op overlay_files))) \<and>
         (supplied ''pagination'' op overlay_files = [] \<longrightarrow>
            out_pagination e =
              (if map_of (detect_pagination_from_docs main_spec) op = None then None
               else Some [(''style'', VStr ''link'')]))"
  using assms
  by (auto simp: final_entry_of_operation last_or_def link_pagination_def split: if_splits)

theorem prose_pagination_is_fallback_witness:
  "(\<exists>e. map_of (operations (build_behavior_model
        ''**Pagination**: Uses Link header\<newline>operation ListA {\<newline>**Pagination**: Uses Link header\<newline>operation ListB {''
        [(''o.smithy'', ''apply ListA @pagination({ style: \"cursor\" })'')])) ''ListA'' = Some e \<and>
      out_pagination e = Some [(''style'', VStr ''cursor'')]) \<and>
   (\<exists>e. map_of (operations (build_behavior_model
        ''**Pagination**: Uses Link header\<newline>operation ListA {\<newline>**Pagination**: Uses Link header\<newline>operation ListB {''
        [(''o.smithy'', ''apply ListA @pagination({ style: \"cursor\" })'')])) ''ListB'' = Some e \<and>
      out_pagination e = Some [(''style'', VStr ''link'')])"
proof -
  let ?m = "''**Pagination**: Uses Link header\<newline>operation ListA {\<newline>**Pagination**: Uses Link header\<newline>operation ListB {''"
  let ?f = "[(''o.smithy'', ''apply ListA @pagination({ style: \"cursor\" })'')]"
  have a: "supplied ''pagination'' ''ListA'' ?f = [[(''style'', VStr ''cursor'')]]" by code_simp
  have b: "supplied ''pagination'' ''ListB'' ?f = []" by code_simp
  have d: "detect_pagination_from_docs ?m = [(''ListA'', [(''style'', VStr ''link'')]), (''ListB'', [(''style'', VStr ''link'')])]"
    by code_simp
  have "map_of (operations (build_behavior_model ?m ?f)) ''ListA'' \<noteq> None" by code_simp
  then obtain ea where ea: "map_of (operations (build_behavior_model ?m ?f)) ''ListA'' = Some ea" by blast
  have "map_of (operations (build_behavior_model ?m ?f)) ''ListB'' \<noteq> None" by code_simp
  then obtain eb where eb: "map_of (operations (build_behavior_model ?m ?f)) ''ListB'' = Some eb" by blast
  from prose_pagination_is_fallback[OF ea] prose_pagination_is_fallback[OF eb]
  show ?thesis unfolding a b d ea eb by simp
qed

text \<open>
  C7. Every operation header the Trait Scanner matches yields an entry, also with no
  annotation marker in front of it (an empty captured block gives the empty entry; when
  a name is declared more than once, the entry is that of the last declaration). A flag
  of an entry is \<open>True\<close> exactly when the captured annotation block contains the
  marker, and absent otherwise: it is never \<open>False\<close>.
\<close>

theorem trait_scanner_entries:
  "(\<forall>m \<in> set (finditer operation_pattern content).
      group m 1 \<noteq> None \<and> group m 2 \<noteq> None \<and>
      map_of (extract_operations_with_traits content) (group_str m 2) \<noteq> None \<and>
      (last (headers_named (group_str m 2) content) = m \<and> group_str m 1 = [] \<longrightarrow>
         map_of (extract_operations_with_traits content) (group_str m 2) = Some no_traits)) \<and>
   (\<forall>op t. map_of (extract_operations_with_traits content) op = Some t \<longrightarrow>
      last (headers_named op content) \<in> set (finditer operation_pattern content) \<and>
      group_str (last (headers_named op content)) 2 = op \<and>
      readonly t =
        (if str_in ''@readonly'' (group_str (last (headers_named op content)) 1)
         then Some True else None) \<and>
      idempotent t =
        (if str_in ''@idempotent'' (group_str (last (headers_named op content)) 1)
         then Some True else None) \<and>
      pagination t = None \<and> retry t = None \<and> idempotency t = None)"
proof (intro conjI ballI allI impI)
  fix m assume m: "m \<in> set (finditer operation_pattern content)"
  show "group m 1 \<noteq> None" by (rule finditer_sets[OF m pattern_groups(1)])
  show "group m 2 \<noteq> None" by (rule finditer_sets[OF m pattern_groups(2)])
  from m have ne: "headers_named (group_str m 2) content \<noteq> []"
    by (auto simp: headers_named_def filter_empty_conv)
  then show "map_of (extract_operations_with_traits content) (group_str m 2) \<noteq> None"
    by (simp add: map_of_extract_operations split: list.splits)
  assume "last (headers_named (group_str m 2) content) = m \<and> group_str m 1 = []"
  with ne show "map_of (extract_operations_with_traits content) (group_str m 2) = Some no_traits"
    by (auto simp: map_of_extract_operations op_info_empty split: list.splits)
next
  fix op t assume t: "map_of (extract_operations_with_traits content) op = Some t"
  then obtain m rest where h: "headers_named op content = m # rest"
      and t_eq: "t = op_info (group_str (last (m # rest)) 1)"
    by (auto simp: map_of_extract_operations split: list.splits)
  from last_headers_named[OF h]
  show "last (headers_named op content) \<in> set (finditer operation_pattern content)"
    "group_str (last (headers_named op content)) 2 = op"
    unfolding h by simp_all
  show "readonly t =
        (if str_in ''@readonly'' (group_str (last (headers_named op content)) 1)
         then Some True else None)"
    "idempotent t =
        (if str_in ''@idempotent'' (group_str (last (headers_named op content)) 1)
         then Some True else None)"
    unfolding h t_eq by simp_all
  from scanned_structured_None[OF t]
  show "pagination t = None" "retry t = None" "idempotency t = None"
    by simp_all
qed

theorem trait_scanner_entries_witness:
  "map_of (extract_operations_with_traits ''operation GetA {\<newline>@readonly\<newline>operation ListB {'')
      ''GetA'' = Some no_traits \<and>
   (\<exists>t. map_of (extract_operations_with_traits ''operation GetA {\<newline>@readonly\<newline>operation ListB {'')
      ''ListB'' = Some t \<and> readonly t = Some True \<and> idempotent t = None)"
proof -
  let ?c = "''operation GetA {\<newline>@readonly\<newline>operation ListB {''"
  let ?a = "[(2, ''GetA''), (1, [])]"
  let ?b = "[(2, ''ListB''), (1, ''@readonly\<newline>'')]"
  have f: "finditer operation_pattern ?c = [?a, ?b]" by code_simp
  have ga: "group_str ?a 2 = ''GetA''" "group_str ?a 1 = []" by code_simp+
  have gb: "group_str ?b 2 = ''ListB''" "group_str ?b 1 = ''@readonly\<newline>''" by code_simp+
  have la: "last (headers_named ''GetA'' ?c) = ?a" by code_simp
  have lb: "last (headers_named ''ListB'' ?c) = ?b" by code_simp
  have sa: "str_in ''@readonly'' ''@readonly\<newline>''" "\<not> str_in ''@idempotent'' ''@readonly\<newline>''"
    by code_simp+
  note T = trait_scanner_entries[of ?c, unfolded f]
  from T have "last (headers_named (group_str ?a 2) ?c) = ?a \<and> group_str ?a 1 = [] \<longrightarrow>
         map_of (extract_operations_with_traits ?c) (group_str ?a 2) = Some no_traits"
    by simp
  with la ga have A: "map_of (extract_operations_with_traits ?c) ''GetA'' = Some no_traits" by simp
  from T have "map_of (extract_operations_with_traits ?c) (group_str ?b 2) \<noteq> None" by simp
  then obtain t where t: "map_of (extract_operations_with_traits ?c) ''ListB'' = Some t"
    unfolding gb by blast
  from T t have "readonly t =
        (if str_in ''@readonly'' (group_str (last (headers_named ''ListB'' ?c)) 1)
         then Some True else None) \<and>
      idempotent t =
        (if str_in ''@idempotent'' (group_str (last (headers_named ''ListB'' ?c)) 1)
         then Some True else None)"
    by blast
  then have "readonly t = Some True \<and> idempotent t = None"
    unfolding lb gb using sa by simp
  with A t show ?thesis by simp
qed



text \<open>
  C9. The model is a function of the primary text and the ordered overlay texts, so two
  runs give the same output. Its operations are keyed in strictly increasing
  (lexicographic) order of name; its sensitive-type list is sorted, without duplicates,
  and is the same whatever order the script's hash-based set enumerates its elements in.
\<close>

theorem output_order_is_fixed:
  "sorted (map fst (operations (build_behavior_model main_spec overlay_files))) \<and>
   distinct (map fst (operations (build_behavior_model main_spec overlay_files))) \<and>
   sorted (sensitiveTypes (build_behavior_model main_spec overlay_files)) \<and>
   distinct (sensitiveTypes (build_behavior_model main_spec overlay_files)) \<and>
   set (sensitiveTypes (build_behavior_model main_spec overlay_files)) =
     extract_sensitive_types main_spec \<and>
   (\<forall>enumeration. distinct enumeration \<and> set enumeration = extract_sensitive_types main_spec \<longrightarrow>
      sort enumeration = sensitiveTypes (build_behavior_model main_spec overlay_files))"
proof -
  have k: "map fst (operations (build_behavior_model main_spec overlay_files)) =
      map fst (sort_key fst (merged_operations main_spec overlay_files))"
    by (rule keys_operations_build)
  have 1: "sorted (map fst (operations (build_behavior_model main_spec overlay_files)))"
    unfolding k by simp
  have 2: "distinct (map fst (operations (build_behavior_model main_spec overlay_files)))"
    unfolding k by (simp only: distinct_keys_sort_key distinct_merged_operations)
  have 3: "sort enumeration = sensitiveTypes (build_behavior_model main_spec overlay_files)"
    if "distinct enumeration" "set enumeration = extract_sensitive_types main_spec" for enumeration
    using that sorted_list_of_set_sort_remdups[of enumeration]
    by (simp add: sensitiveTypes_build distinct_remdups_id)
  show ?thesis
    using 1 2 3 by (simp add: sensitiveTypes_build finite_extract_sensitive_types)
qed

theorem output_order_is_fixed_witness:
  "sensitiveTypes (build_behavior_model
      ''@sensitive\<newline>string Pb\<newline>@sensitive\<newline>string Pa'' []) = [''Pa'', ''Pb''] \<and>
   map fst (operations (build_behavior_model
      ''operation b {\<newline>operation a {\<newline>operation B {'' [])) = [''B'', ''a'', ''b'']"
proof -
  let ?m = "''@sensitive\<newline>string Pb\<newline>@sensitive\<newline>string Pa''"
  have d: "distinct [''Pb'', ''Pa'']" by simp
  have s: "set [''Pb'', ''Pa''] = extract_sensitive_types ?m" by code_simp
  have o: "sort [''Pb'', ''Pa''] = [''Pa'', ''Pb'']" by code_simp
  have k: "map fst (operations (build_behavior_model
      ''operation b {\<newline>operation a {\<newline>operation B {'' [])) = [''B'', ''a'', ''b'']"
    by code_simp
  from output_order_is_fixed[of ?m "[]"] d s have
    "sort [''Pb'', ''Pa''] = sensitiveTypes (build_behavior_model ?m [])" by blast
  then show ?thesis unfolding o using k by simp
qed

text \<open>
  C10 as stated fails: an \<open>apply\<close> statement with another trait name still creates the
  entry of a target the primary document does not declare, so it changes the final model.
\<close>

theorem other_trait_creates_entry:
  "operations (build_behavior_model ''operation GetA {''
      [(''o.smithy'', ''apply NewB @readonly({ x: 1 })'')]) =
     [(''GetA'', \<lparr>out_readonly = None, out_idempotent = None, out_pagination = None,
                  out_retry = Some [(''max'', VInt 0)]\<rparr>),
      (''NewB'', \<lparr>out_readonly = None, out_idempotent = None, out_pagination = None,
                  out_retry = Some [(''max'', VInt 0)]\<rparr>)] \<and>
   operations (build_behavior_model ''operation GetA {'' [(''o.smithy'', [])]) =
     [(''GetA'', \<lparr>out_readonly = None, out_idempotent = None, out_pagination = None,
                  out_retry = Some [(''max'', VInt 0)]\<rparr>)]"
  by code_simp

text \<open>
  C10, as amended. Only the structured traits \<open>pagination\<close>, \<open>retry\<close> and \<open>idempotency\<close>
  are merged into an operation's record: two sequences of overlay documents that give the
  same payloads for these three traits, and target the same operations among those the
  primary document does not declare, yield the same model. So an \<open>apply\<close> statement with
  any other trait name has one effect only: its target gets an entry if it had none.
  Overlays never set the readonly flag, and they reach the idempotent flag only through
  the \<open>supported\<close> key of \<open>idempotency\<close>.
\<close>

theorem overlays_merge_three_traits_only:
  "((\<forall>op. (headers_named op main_spec \<noteq> [] \<or>
            targeted op overlay_files = targeted op overlay_files') \<and>
          supplied ''pagination'' op overlay_files = supplied ''pagination'' op overlay_files' \<and>
          supplied ''retry'' op overlay_files = supplied ''retry'' op overlay_files' \<and>
          supplied ''idempotency'' op overlay_files = supplied ''idempotency'' op overlay_files') \<longrightarrow>
      build_behavior_model main_spec overlay_files = build_behavior_model main_spec overlay_files') \<and>
   (map_of (operations (build_behavior_model main_spec overlay_files)) op = Some e \<longrightarrow>
      out_readonly e = (if declared_with ''@readonly'' main_spec op then Some True else None) \<and>
      out_idempotent e =
        (if declared_with ''@idempotent'' main_spec op then Some (VBool True)
         else if supplied ''idempotency'' op overlay_files = [] then None
         else Some (case map_of (last (supplied ''idempotency'' op overlay_files)) ''supported'' of
                      Some v \<Rightarrow> v | None \<Rightarrow> VBool False)))"
proof (intro conjI impI)
  assume same: "\<forall>op. (headers_named op main_spec \<noteq> [] \<or>
            targeted op overlay_files = targeted op overlay_files') \<and>
          supplied ''pagination'' op overlay_files = supplied ''pagination'' op overlay_files' \<and>
          supplied ''retry'' op overlay_files = supplied ''retry'' op overlay_files' \<and>
          supplied ''idempotency'' op overlay_files = supplied ''idempotency'' op overlay_files'"
  have "map_of (operations (build_behavior_model main_spec overlay_files)) op =
        map_of (operations (build_behavior_model main_spec overlay_files')) op" for op
    using same[rule_format, of op]
    by (auto simp: final_entry_of_operation scanned_declared)
  then have "map_of (operations (build_behavior_model main_spec overlay_files)) =
        map_of (operations (build_behavior_model main_spec overlay_files'))" by (rule ext)
  from sorted_assoc_unique[OF sorted_operations_build sorted_operations_build this]
  show "build_behavior_model main_spec overlay_files = build_behavior_model main_spec overlay_files'"
    by (rule build_depends_on_operations)
next
  assume e: "map_of (operations (build_behavior_model main_spec overlay_files)) op = Some e"
  then show "out_readonly e = (if declared_with ''@readonly'' main_spec op then Some True else None)"
    by (auto simp: final_entry_of_operation scanned_flag_readonly split: if_splits)
  from e show "out_idempotent e =
        (if declared_with ''@idempotent'' main_spec op then Some (VBool True)
         else if supplied ''idempotency'' op overlay_files = [] then None
         else Some (case map_of (last (supplied ''idempotency'' op overlay_files)) ''supported'' of
                      Some v \<Rightarrow> v | None \<Rightarrow> VBool False))"
    by (auto simp: final_entry_of_operation scanned_flag_idempotent last_or_def supported_of_def
        split: if_splits)
qed

theorem overlays_merge_three_traits_only_witness:
  "build_behavior_model ''@readonly\<newline>operation GetA {''
      [(''o.smithy'', ''apply GetA @readonly({ x: 1 })'')] =
   build_behavior_model ''@readonly\<newline>operation GetA {'' [(''o.smithy'', [])] \<and>
   (\<exists>e. map_of (operations (build_behavior_model ''@readonly\<newline>operation GetA {''
            [(''o.smithy'', ''apply GetA @readonly({ x: 1 })'')])) ''GetA'' = Some e \<and>
        out_readonly e = Some True \<and> out_idempotent e = None)"
proof -
  let ?m = "''@readonly\<newline>operation GetA {''"
  let ?f = "[(''o.smithy'', ''apply GetA @readonly({ x: 1 })'')]"
  let ?g = "[(''o.smithy'', [])]"
  have df: "overlay_docs ?f = [[(''GetA'', [(''readonly'', [(''x'', VInt 1)])])]]" by code_simp
  have dg: "overlay_docs ?g = [[]]" by code_simp
  have h: "headers_named ''GetA'' ?m \<noteq> []" by code_simp
  have same: "(headers_named op ?m \<noteq> [] \<or> targeted op ?f = targeted op ?g) \<and>
          supplied ''pagination'' op ?f = supplied ''pagination'' op ?g \<and>
          supplied ''retry'' op ?f = supplied ''retry'' op ?g \<and>
          supplied ''idempotency'' op ?f = supplied ''idempotency'' op ?g" for op
    using h unfolding targeted_def supplied_def supplied_in_def List.map_filter_def df dg
    by (cases "op = ''GetA''") simp_all
  have "map_of (operations (build_behavior_model ?m ?f)) ''GetA'' \<noteq> None" by code_simp
  then obtain e where e: "map_of (operations (build_behavior_model ?m ?f)) ''GetA'' = Some e" by blast
  have r: "declared_with ''@readonly'' ?m ''GetA''" by code_simp
  have i: "\<not> declared_with ''@idempotent'' ?m ''GetA''" by code_simp
  have s: "supplied ''idempotency'' ''GetA'' ?f = []" by code_simp
  from overlays_merge_three_traits_only[of ?m ?f ?g "''GetA''" e] same e r i
  show ?thesis unfolding s by simp
qed

end
